theory Spec2Isabelle
  imports Main "HOL-Library.Multiset" "HOL-Library.Product_Lexorder"
begin

section \<open>Data model of \<open>app_motor.py\<close>\<close>

text \<open>
  The script keeps one pandas \<open>DataFrame\<close> called \<open>data\<close>. A cell is a missing value
  (\<open>NaN\<close>, \<open>NaT\<close>, \<open>None\<close>), an integer, a string, or a timestamp. Timestamps are counted in
  nanoseconds since 1970-01-01, as the library's \<open>datetime64[ns]\<close> does; the bounded range
  of that type is not modelled. Floating-point cells are outside the model.
\<close>

datatype cell = Null | IntC int | StrC string | TimeC int

text \<open>
  A row gives a cell for every column name; only the names listed in \<open>columns\<close> belong to
  the frame. Every row carries its index label, the position it had in the file.
\<close>

type_synonym row = "string \<Rightarrow> cell"

record dataframe =
  columns :: "string list"
  rows :: "(nat \<times> row) list"


definition read_table :: "string list \<Rightarrow> row list \<Rightarrow> dataframe" where
  \<comment> \<open>\<open>pd.read_csv\<close> / \<open>pd.read_excel\<close>: the rows of the file under a fresh \<open>RangeIndex\<close>\<close>
  "read_table cols rs = \<lparr>columns = cols, rows = enumerate 0 rs\<rparr>"

definition has_column :: "string \<Rightarrow> dataframe \<Rightarrow> bool" where
  \<comment> \<open>\<open>c in data.columns\<close>\<close>
  "has_column c df = (c \<in> set (columns df))"

definition len :: "dataframe \<Rightarrow> nat" where
  \<comment> \<open>\<open>len(data)\<close>\<close>
  "len df = length (rows df)"

definition column_values :: "string \<Rightarrow> dataframe \<Rightarrow> cell list" where
  \<comment> \<open>\<open>data[c]\<close>, top to bottom\<close>
  "column_values c df = map (\<lambda>(i, r). r c) (rows df)"

definition index :: "dataframe \<Rightarrow> nat list" where
  \<comment> \<open>\<open>data.index\<close>\<close>
  "index df = map fst (rows df)"

definition assign_column :: "string \<Rightarrow> cell list \<Rightarrow> dataframe \<Rightarrow> dataframe" where
  \<comment> \<open>\<open>data[c] = vs\<close> with a list or array: by position, never by label. The script only
      assigns sequences of length \<open>len(data)\<close>.\<close>
  "assign_column c vs df =
     \<lparr>columns = (if c \<in> set (columns df) then columns df else columns df @ [c]),
      rows = map (\<lambda>((i, r), v). (i, r(c := v))) (zip (rows df) vs)\<rparr>"

subsection \<open>Dates\<close>

definition day :: int where
  \<comment> \<open>\<open>timedelta(days=1)\<close> and the frequency \<open>D\<close>, in nanoseconds\<close>
  "day = 86400000000000"

definition epoch_2023 :: int where
  \<comment> \<open>the timestamp \<open>2023-01-01\<close>: 19358 days after 1970-01-01\<close>
  "epoch_2023 = 19358 * day"

definition date_range :: "int \<Rightarrow> nat \<Rightarrow> int list" where
  \<comment> \<open>\<open>pd.date_range(start, periods=n, freq="D")\<close>\<close>
  "date_range start n = map (\<lambda>k. start + int k * day) [0..<n]"

definition to_datetime :: "(cell list \<Rightarrow> cell \<Rightarrow> int option) \<Rightarrow> cell list \<Rightarrow> cell list" where
  \<comment> \<open>\<open>pd.to_datetime(col, errors="coerce")\<close>: timestamps stay, missing values become
      \<open>NaT\<close>, anything else goes through the library's parser \<open>parse\<close>, which sees the whole
      column (it guesses one format for it) and yields \<open>NaT\<close> where it fails.\<close>
  "to_datetime parse col =
     map (\<lambda>c. case c of
                 TimeC t \<Rightarrow> TimeC t
               | Null \<Rightarrow> Null
               | _ \<Rightarrow> (case parse col c of Some t \<Rightarrow> TimeC t | None \<Rightarrow> Null)) col"

definition dropna :: "string \<Rightarrow> dataframe \<Rightarrow> dataframe" where
  \<comment> \<open>\<open>data.dropna(subset=[c])\<close>\<close>
  "dropna c df = df\<lparr>rows := filter (\<lambda>(i, r). r c \<noteq> Null) (rows df)\<rparr>"

fun stamp :: "cell \<Rightarrow> int" where
  "stamp (TimeC t) = t"
| "stamp _ = 0"

definition sort_values :: "(int list \<Rightarrow> nat \<Rightarrow> nat) \<Rightarrow> string \<Rightarrow> dataframe \<Rightarrow> dataframe" where
  \<comment> \<open>\<open>data.sort_values(c)\<close> on a timestamp column, with the defaults \<open>ascending=True\<close>,
      \<open>kind="quicksort"\<close>, \<open>na_position="last"\<close>. The rows come out in ascending order of
      the key. The order among rows of equal key is the library's business: \<open>ties ks p\<close> is
      the rank the algorithm gives position \<open>p\<close> of the key array \<open>ks\<close> among its equals,
      so every ordering a sorting algorithm can return is the result for some \<open>ties\<close>.\<close>
  "sort_values ties c df =
     (let present = filter (\<lambda>(i, r). r c \<noteq> Null) (rows df);
          missing = filter (\<lambda>(i, r). r c = Null) (rows df);
          ks = map (\<lambda>(i, r). stamp (r c)) present
      in df\<lparr>rows := map snd (sort_key (\<lambda>(p, (i, r)). (stamp (r c), ties ks p))
                                       (enumerate 0 present)) @ missing\<rparr>)"

subsection \<open>The random module\<close>

text \<open>
  The generator is an infinite sequence of raw draws; \<open>_randbelow n\<close> consumes one and
  returns a number below \<open>n\<close>. Every value the library can return is the value for some
  sequence.
\<close>

type_synonym rng = "nat \<Rightarrow> nat"

definition randbelow :: "nat \<Rightarrow> rng \<Rightarrow> nat \<times> rng" where
  "randbelow n g = (g 0 mod n, \<lambda>k. g (Suc k))"

definition choice :: "'a list \<Rightarrow> rng \<Rightarrow> 'a \<times> rng" where
  \<comment> \<open>\<open>random.choice(seq)\<close> is \<open>seq[_randbelow(len(seq))]\<close>; the script's lists are not empty\<close>
  "choice xs g = (let (k, g') = randbelow (length xs) g in (xs ! k, g'))"

definition randint :: "int \<Rightarrow> int \<Rightarrow> rng \<Rightarrow> int \<times> rng" where
  \<comment> \<open>\<open>random.randint(a, b)\<close> is \<open>a + _randbelow(b - a + 1)\<close>\<close>
  "randint a b g = (let (k, g') = randbelow (nat (b - a + 1)) g in (a + int k, g'))"

fun draws :: "(rng \<Rightarrow> 'a \<times> rng) \<Rightarrow> nat \<Rightarrow> rng \<Rightarrow> 'a list \<times> rng" where
  \<comment> \<open>\<open>[f() for _ in range(n)]\<close>\<close>
  "draws f 0 g = ([], g)"
| "draws f (Suc n) g =
     (let (x, g1) = f g; (xs, g2) = draws f n g1 in (x # xs, g2))"

subsection \<open>Preparing the data (section 3 of the script)\<close>

definition digit_char :: "nat \<Rightarrow> char" where
  "digit_char d = ''0123456789'' ! d"

function str_of_nat :: "nat \<Rightarrow> string" where
  \<comment> \<open>how an f-string prints a non-negative integer\<close>
  "str_of_nat n = (if n < 10 then [digit_char n]
                   else str_of_nat (n div 10) @ [digit_char (n mod 10)])"
  by pat_completeness auto
termination
  by (relation "measure id") auto

declare str_of_nat.simps [simp del]

definition wilayah_list :: "string list" where
  "wilayah_list = [''Jakarta'', ''Bandung'', ''Surabaya'', ''Medan'', ''Yogyakarta'']"

definition motor_label :: "nat \<Rightarrow> cell" where
  \<comment> \<open>\<open>f"Motor-{i%5+1}"\<close>\<close>
  "motor_label i = StrC (''Motor-'' @ str_of_nat (i mod 5 + 1))"

definition parse_dates :: "(cell list \<Rightarrow> cell \<Rightarrow> int option) \<Rightarrow> dataframe \<Rightarrow> dataframe" where
  \<comment> \<open>lines 73 to 78\<close>
  "parse_dates parse data =
     (let d1 = (if \<not> has_column ''Tanggal'' data
                then assign_column ''Tanggal'' (map TimeC (date_range epoch_2023 (len data))) data
                else data)
      in assign_column ''Tanggal'' (to_datetime parse (column_values ''Tanggal'' d1)) d1)"

definition prepare_dates ::
  "(int list \<Rightarrow> nat \<Rightarrow> nat) \<Rightarrow> (cell list \<Rightarrow> cell \<Rightarrow> int option) \<Rightarrow> dataframe \<Rightarrow> dataframe" where
  \<comment> \<open>lines 73 to 79\<close>
  "prepare_dates ties parse data =
     sort_values ties ''Tanggal'' (dropna ''Tanggal'' (parse_dates parse data))"

definition fill_wilayah :: "dataframe \<Rightarrow> rng \<Rightarrow> dataframe \<times> rng" where
  "fill_wilayah data g =
     (if \<not> has_column ''Wilayah'' data
      then (let (vs, g') = draws (choice wilayah_list) (len data) g
            in (assign_column ''Wilayah'' (map StrC vs) data, g'))
      else (data, g))"

definition fill_promosi :: "dataframe \<Rightarrow> rng \<Rightarrow> dataframe \<times> rng" where
  "fill_promosi data g =
     (if \<not> has_column ''Promosi'' data
      then (let (vs, g') = draws (choice [0, 1]) (len data) g
            in (assign_column ''Promosi'' (map IntC vs) data, g'))
      else (data, g))"

definition fill_penjualan :: "dataframe \<Rightarrow> rng \<Rightarrow> dataframe \<times> rng" where
  "fill_penjualan data g =
     (if \<not> has_column ''Penjualan'' data
      then (let (vs, g') = draws (randint 20 200) (len data) g
            in (assign_column ''Penjualan'' (map IntC vs) data, g'))
      else (data, g))"

definition fill_nama_produk :: "dataframe \<Rightarrow> dataframe" where
  "fill_nama_produk data =
     (if \<not> has_column ''Nama_Produk'' data
      then assign_column ''Nama_Produk'' (map motor_label [0..<len data]) data
      else data)"

definition backfill :: "dataframe \<Rightarrow> rng \<Rightarrow> dataframe \<times> rng" where
  \<comment> \<open>lines 82 to 93, in the script's order\<close>
  "backfill data g =
     (let (d1, g1) = fill_wilayah data g;
          (d2, g2) = fill_promosi d1 g1;
          (d3, g3) = fill_penjualan d2 g2
      in (fill_nama_produk d3, g3))"

definition normalize ::
  "(int list \<Rightarrow> nat \<Rightarrow> nat) \<Rightarrow> (cell list \<Rightarrow> cell \<Rightarrow> int option) \<Rightarrow> dataframe \<Rightarrow> rng
     \<Rightarrow> dataframe \<times> rng" where
  "normalize ties parse data g = backfill (prepare_dates ties parse data) g"

definition canonical ::
  "(int list \<Rightarrow> nat \<Rightarrow> nat) \<Rightarrow> (cell list \<Rightarrow> cell \<Rightarrow> int option) \<Rightarrow> dataframe \<Rightarrow> rng
     \<Rightarrow> dataframe" where
  \<comment> \<open>the table every page of the script reads\<close>
  "canonical ties parse data g = fst (normalize ties parse data g)"

section \<open>The pages\<close>



subsection \<open>Prediksi Demand\<close>





subsection \<open>Insight Otomatis\<close>








section \<open>Sample inputs\<close>

definition sample_row :: "cell \<Rightarrow> cell \<Rightarrow> cell \<Rightarrow> cell \<Rightarrow> cell \<Rightarrow> row" where
  \<comment> \<open>a row of a file that has the five columns the script knows\<close>
  "sample_row d w p u n =
     (\<lambda>c. Null)(''Tanggal'' := d, ''Wilayah'' := w, ''Promosi'' := p, ''Penjualan'' := u,
                  ''Nama_Produk'' := n)"

definition five_columns :: "string list" where
  "five_columns = [''Tanggal'', ''Wilayah'', ''Promosi'', ''Penjualan'', ''Nama_Produk'']"

definition sample_parse :: "cell list \<Rightarrow> cell \<Rightarrow> int option" where
  \<comment> \<open>a parser that reads integers as nanoseconds since 1970 and nothing else\<close>
  "sample_parse col c = (case c of IntC n \<Rightarrow> Some n | _ \<Rightarrow> None)"

definition in_order :: "int list \<Rightarrow> nat \<Rightarrow> nat" where
  \<comment> \<open>equal keys stay in the order of the input\<close>
  "in_order ks p = p"


definition counting :: rng where
  "counting k = k"


definition partial_region :: "row list" where
  \<comment> \<open>the rows of a file whose \<open>Wilayah\<close> column has an empty cell\<close>
  "partial_region =
     [sample_row (TimeC day) Null (IntC 1) (IntC 40) (StrC ''Beat''),
      sample_row (TimeC 0) (StrC ''Medan'') (IntC 0) (IntC 30) (StrC ''Vario'')]"



definition dates_only :: dataframe where
  \<comment> \<open>a file of one row that has a date and nothing else\<close>
  "dates_only = read_table [''Tanggal''] [(\<lambda>c. Null)(''Tanggal'' := TimeC 0)]"



section \<open>Properties of the data preparation\<close>

subsection \<open>Column assignment\<close>

lemma columns_assign_column:
  "set (columns (assign_column c vs df)) = insert c (set (columns df))"
  by (auto simp: assign_column_def)

lemma len_assign_column:
  "length vs = len df \<Longrightarrow> len (assign_column c vs df) = len df"
  by (simp add: assign_column_def len_def)

lemma column_values_assign_same:
  assumes "length vs = len df"
  shows "column_values c (assign_column c vs df) = vs"
proof -
  have "length rs = length vs \<Longrightarrow>
        map (\<lambda>(i, r). r c) (map (\<lambda>((i, r), v). (i, r(c := v))) (zip rs vs)) = vs"
    for rs :: "(nat \<times> row) list"
    by (induction rs vs rule: list_induct2) auto
  with assms show ?thesis
    by (simp add: assign_column_def column_values_def len_def)
qed

lemma column_values_assign_other:
  assumes "length vs = len df" and "c' \<noteq> c"
  shows "column_values c' (assign_column c vs df) = column_values c' df"
proof -
  have "length rs = length vs \<Longrightarrow>
        map (\<lambda>(i, r). r c') (map (\<lambda>((i, r), v). (i, r(c := v))) (zip rs vs))
          = map (\<lambda>(i, r). r c') rs"
    for rs :: "(nat \<times> row) list"
    by (induction rs vs rule: list_induct2) (use assms(2) in auto)
  with assms show ?thesis
    by (simp add: assign_column_def column_values_def len_def)
qed

lemma index_assign_column:
  assumes "length vs = len df"
  shows "index (assign_column c vs df) = index df"
proof -
  have "length rs = length vs \<Longrightarrow>
        map fst (map (\<lambda>((i, r), v). (i, r(c := v))) (zip rs vs)) = map fst rs"
    for rs :: "(nat \<times> row) list"
    by (induction rs vs rule: list_induct2) auto
  with assms show ?thesis
    by (simp add: assign_column_def index_def len_def)
qed

lemma length_draws: "length (fst (draws f n g)) = n"
proof (induction n arbitrary: g)
  case 0
  then show ?case by simp
next
  case (Suc n)
  obtain y g1 where fg: "f g = (y, g1)" by (cases "f g")
  obtain ys g2 where dg: "draws f n g1 = (ys, g2)" by (cases "draws f n g1")
  from Suc.IH [of g1] dg have "length ys = n" by simp
  with fg dg show ?case by simp
qed

lemma draws_all:
  "(\<And>g. P (fst (f g))) \<Longrightarrow> x \<in> set (fst (draws f n g)) \<Longrightarrow> P x"
proof (induction n arbitrary: g)
  case 0
  then show ?case by simp
next
  case (Suc n)
  obtain y g1 where fg: "f g = (y, g1)" by (cases "f g")
  obtain ys g2 where dg: "draws f n g1 = (ys, g2)" by (cases "draws f n g1")
  from Suc.prems(2) fg dg have "x = y \<or> x \<in> set ys" by simp
  then show ?case
  proof
    assume "x = y"
    with Suc.prems(1) [of g] fg show ?thesis by simp
  next
    assume "x \<in> set ys"
    with dg have "x \<in> set (fst (draws f n g1))" by simp
    with Suc.IH Suc.prems(1) show ?thesis by blast
  qed
qed

lemma randint_range: "a \<le> b \<Longrightarrow> a \<le> fst (randint a b g) \<and> fst (randint a b g) \<le> b"
proof -
  assume ab: "a \<le> b"
  have pos: "0 < nat (b - a + 1)" using ab by simp
  have "g 0 mod nat (b - a + 1) < nat (b - a + 1)" using pos by (rule mod_less_divisor)
  then have "int (g 0 mod nat (b - a + 1)) < b - a + 1" using ab by linarith
  then show ?thesis by (simp add: randint_def randbelow_def)
qed

subsection \<open>Dates and sorting\<close>

lemma length_to_datetime: "length (to_datetime parse col) = length col"
  by (simp add: to_datetime_def)

lemma to_datetime_cells:
  "x \<in> set (to_datetime parse col) \<Longrightarrow> x = Null \<or> (\<exists>t. x = TimeC t)"
  by (auto simp: to_datetime_def split: cell.splits option.splits)


lemma column_values_dropna:
  "column_values c (dropna c df) = filter (\<lambda>x. x \<noteq> Null) (column_values c df)"
  by (simp add: column_values_def dropna_def filter_map comp_def case_prod_unfold)

lemma columns_dropna: "columns (dropna c df) = columns df"
  by (simp add: dropna_def)

lemma columns_sort_values: "columns (sort_values ties c df) = columns df"
  by (simp add: sort_values_def Let_def)

lemma mset_map_snd_sort_key:
  "mset (map snd (sort_key k (enumerate 0 xs))) = mset xs"
proof -
  have "mset (map snd (sort_key k (enumerate 0 xs))) = image_mset snd (mset (sort_key k (enumerate 0 xs)))"
    by simp
  also have "\<dots> = image_mset snd (mset (enumerate 0 xs))"
    by simp
  also have "\<dots> = mset xs"
    by (simp only: mset_map [symmetric] map_snd_enumerate)
  finally show ?thesis .
qed

lemma mset_split_null:
  "mset (filter (\<lambda>(i, r). r c \<noteq> Null) xs) + mset (filter (\<lambda>(i, r). r c = Null) xs) = mset xs"
  by (induction xs) auto

lemma mset_rows_sort_values: "mset (rows (sort_values ties c df)) = mset (rows df)"
  by (simp add: sort_values_def Let_def mset_map_snd_sort_key mset_split_null del: mset_map)

lemma sorted_fst_of_lex:
  fixes k :: "'a \<Rightarrow> int \<times> nat"
  assumes "sorted (map k xs)"
  shows "sorted (map (\<lambda>x. fst (k x)) xs)"
proof -
  have "sorted_wrt (\<lambda>x y. k x \<le> k y) xs"
    using assms by (simp add: sorted_map)
  then have "sorted_wrt (\<lambda>x y. fst (k x) \<le> fst (k y)) xs"
    by (rule sorted_wrt_mono_rel [rotated]) (auto simp: less_eq_prod_def)
  then show ?thesis by (simp add: sorted_map)
qed

lemma sorted_stamps_sort_values:
  assumes "Null \<notin> set (column_values c df)"
  shows "sorted (map stamp (column_values c (sort_values ties c df)))"
proof -
  let ?ks = "map (\<lambda>(i, r). stamp (r c)) (rows df)"
  let ?k = "\<lambda>(p, (i, r)). (stamp (r c), ties ?ks p)"
  have nn: "r c \<noteq> Null" if "(i, r) \<in> set (rows df)" for i r
    using assms that by (force simp: column_values_def)
  have all: "filter (\<lambda>(i, r). r c \<noteq> Null) (rows df) = rows df"
    using nn by (auto intro!: filter_True)
  have none: "filter (\<lambda>(i, r). r c = Null) (rows df) = []"
    using nn by (auto simp: filter_empty_conv)
  have rows_eq: "rows (sort_values ties c df) = map snd (sort_key ?k (enumerate 0 (rows df)))"
    by (simp add: sort_values_def Let_def all none)
  have "sorted (map ?k (sort_key ?k (enumerate 0 (rows df))))"
    by (rule sorted_sort_key)
  then have "sorted (map (\<lambda>x. fst (?k x)) (sort_key ?k (enumerate 0 (rows df))))"
    by (rule sorted_fst_of_lex)
  moreover have "(\<lambda>x. fst (?k x)) = (\<lambda>x. stamp (snd (snd x) c))"
    by (auto simp: fun_eq_iff)
  ultimately show ?thesis
    by (simp add: rows_eq column_values_def comp_def case_prod_unfold)
qed

lemma set_rows_sort_values: "set (rows (sort_values ties c df)) = set (rows df)"
  using mset_rows_sort_values [of ties c df] by (rule mset_eq_setD)

lemma len_sort_values: "len (sort_values ties c df) = len df"
  using mset_rows_sort_values [of ties c df] unfolding len_def by (rule mset_eq_length)

lemma set_column_sort_values:
  "set (column_values c' (sort_values ties c df)) = set (column_values c' df)"
  by (simp add: column_values_def set_rows_sort_values)

lemma length_date_range: "length (date_range s n) = n"
  by (simp add: date_range_def)

lemma length_column_values: "length (column_values c df) = len df"
  by (simp add: column_values_def len_def)

lemma tanggal_parse_dates:
  "column_values ''Tanggal'' (parse_dates parse data) =
     to_datetime parse (if has_column ''Tanggal'' data then column_values ''Tanggal'' data
                        else map TimeC (date_range epoch_2023 (len data)))"
  by (simp add: parse_dates_def Let_def column_values_assign_same length_to_datetime
      length_column_values length_date_range len_assign_column)

lemma tanggal_prepared_cells:
  assumes "x \<in> set (column_values ''Tanggal'' (prepare_dates ties parse data))"
  shows "\<exists>t. x = TimeC t"
proof -
  from assms have "x \<in> set (column_values ''Tanggal'' (dropna ''Tanggal'' (parse_dates parse data)))"
    by (simp add: prepare_dates_def set_column_sort_values)
  then have "x \<noteq> Null" and "x \<in> set (column_values ''Tanggal'' (parse_dates parse data))"
    by (simp_all add: column_values_dropna)
  then show ?thesis
    using to_datetime_cells [of x parse] by (auto simp: tanggal_parse_dates split: if_splits)
qed

lemma tanggal_prepared_sorted:
  "sorted (map stamp (column_values ''Tanggal'' (prepare_dates ties parse data)))"
  unfolding prepare_dates_def
  by (rule sorted_stamps_sort_values) (simp add: column_values_dropna)





lemma index_read_table: "index (read_table cols rs) = [0..<length rs]"
  by (simp add: index_def read_table_def)

lemma has_column_read_table: "has_column c (read_table cols rs) \<longleftrightarrow> c \<in> set cols"
  by (simp add: has_column_def read_table_def)





text \<open>
  The tie ranking leaves the sort no freedom it should not have, and takes none away: the
  result is always sorted and a permutation (\<open>mset_rows_sort_values\<close>,
  \<open>sorted_stamps_sort_values\<close>), and every sorted permutation of the rows is the result
  for some ranking.
\<close>

lemma sort_key_cong_set:
  "(\<And>x. x \<in> set xs \<Longrightarrow> f x = g x) \<Longrightarrow> sort_key f xs = sort_key g xs"
proof (induction xs)
  case Nil
  then show ?case by simp
next
  case (Cons x xs)
  have "insort_key f x ys = insort_key g x ys" if "set ys \<subseteq> set xs" for ys
    using that Cons.prems by (induction ys) auto
  with Cons show ?case by simp
qed

lemma map_insort_key_comp:
  "map h (insort_key (\<lambda>a. k (h a)) x xs) = insort_key k (h x) (map h xs)"
  by (induction xs) auto

lemma map_sort_key_comp: "map h (sort_key (\<lambda>a. k (h a)) xs) = sort_key k (map h xs)"
  by (induction xs) (simp_all add: map_insort_key_comp)

lemma position_nth:
  assumes "distinct ys" "n < length ys"
  shows "length (takeWhile (\<lambda>y. y \<noteq> ys ! n) ys) = n"
proof -
  have "takeWhile (\<lambda>y. y \<noteq> ys ! n) ys = take n ys"
  proof (rule takeWhile_eq_take_P_nth)
    fix i assume "i < n" "i < length ys"
    with assms show "ys ! i \<noteq> ys ! n"
      by (simp add: nth_eq_iff_index_eq)
  qed simp
  with assms(2) show ?thesis by simp
qed

lemma sort_values_any_order:
  assumes dist: "distinct (rows df)"
    and nonnull: "Null \<notin> set (column_values c df)"
    and perm: "mset ys = mset (rows df)"
    and srt: "sorted (map (\<lambda>(i, r). stamp (r c)) ys)"
  shows "\<exists>ties. rows (sort_values ties c df) = ys"
proof -
  define pos where "pos x = length (takeWhile (\<lambda>y. y \<noteq> x) ys)" for x :: "nat \<times> row"
  define ties where "ties ks p = pos (rows df ! p)" for ks :: "int list" and p
  let ?ks = "map (\<lambda>(i, r). stamp (r c)) (rows df)"
  let ?k = "\<lambda>(p, (i, r)). (stamp (r c), ties ?ks p)"
  let ?k' = "\<lambda>(i, r). (stamp (r c), pos (i, r))"
  have dys: "distinct ys"
    using dist perm by (metis mset_eq_imp_distinct_iff)
  have pos_nth: "pos (ys ! n) = n" if "n < length ys" for n
    unfolding pos_def using dys that by (rule position_nth)
  have nn: "r c \<noteq> Null" if "(i, r) \<in> set (rows df)" for i r
    using nonnull that by (force simp: column_values_def)
  have all: "filter (\<lambda>(i, r). r c \<noteq> Null) (rows df) = rows df"
    using nn by (auto intro!: filter_True)
  have none: "filter (\<lambda>(i, r). r c = Null) (rows df) = []"
    using nn by (auto simp: filter_empty_conv)
  have "sort_key ?k (enumerate 0 (rows df)) = sort_key (\<lambda>a. ?k' (snd a)) (enumerate 0 (rows df))"
    by (rule sort_key_cong_set) (auto simp: in_set_enumerate_eq ties_def)
  then have "map snd (sort_key ?k (enumerate 0 (rows df))) = sort_key ?k' (map snd (enumerate 0 (rows df)))"
    by (simp only: map_sort_key_comp)
  then have "map snd (sort_key ?k (enumerate 0 (rows df))) = sort_key ?k' (rows df)"
    by (simp only: map_snd_enumerate)
  moreover have "sort_key ?k' (rows df) = ys"
  proof (rule sort_key_inj_key_eq)
    show "mset (rows df) = mset ys" using perm by simp
    have "set (rows df) = set ys"
      using perm by (metis mset_eq_setD)
    then have "inj_on pos (set (rows df))"
    proof (intro inj_onI)
      fix x y assume sets: "set (rows df) = set ys" and xy: "x \<in> set (rows df)" "y \<in> set (rows df)"
        and eq: "pos x = pos y"
      from sets xy obtain i j where ij: "i < length ys" "ys ! i = x" "j < length ys" "ys ! j = y"
        by (auto simp: in_set_conv_nth)
      with pos_nth [of i] pos_nth [of j] eq have "i = j" by simp
      with ij show "x = y" by simp
    qed
    then show "inj_on ?k' (set (rows df))"
      by (auto simp: inj_on_def)
    show "sorted (map ?k' ys)"
      unfolding sorted_iff_nth_mono_less
    proof (intro allI impI)
      fix i j assume ij: "i < j" "j < length (map ?k' ys)"
      then have "stamp (snd (ys ! i) c) \<le> stamp (snd (ys ! j) c)"
        using srt by (auto simp: sorted_iff_nth_mono_less case_prod_unfold)
      moreover have "pos (ys ! i) \<le> pos (ys ! j)"
        using ij by (simp add: pos_nth)
      ultimately show "map ?k' ys ! i \<le> map ?k' ys ! j"
        using ij by (auto simp: less_eq_prod_def case_prod_unfold)
    qed
  qed
  ultimately have "rows (sort_values ties c df) = ys"
    by (simp add: sort_values_def Let_def all none)
  then show ?thesis by blast
qed

subsection \<open>Backfill\<close>

lemma has_column_assign: "has_column c' (assign_column c vs df) \<longleftrightarrow> c' = c \<or> has_column c' df"
  by (auto simp: has_column_def assign_column_def)

lemma fill_wilayah_eq:
  "fill_wilayah d g =
     (if \<not> has_column ''Wilayah'' d
      then (assign_column ''Wilayah'' (map StrC (fst (draws (choice wilayah_list) (len d) g))) d,
            snd (draws (choice wilayah_list) (len d) g))
      else (d, g))"
  by (simp add: fill_wilayah_def case_prod_unfold Let_def)

lemma fill_promosi_eq:
  "fill_promosi d g =
     (if \<not> has_column ''Promosi'' d
      then (assign_column ''Promosi'' (map IntC (fst (draws (choice [0, 1 :: int]) (len d) g))) d,
            snd (draws (choice [0, 1 :: int]) (len d) g))
      else (d, g))"
  by (simp add: fill_promosi_def case_prod_unfold Let_def)

lemma fill_penjualan_eq:
  "fill_penjualan d g =
     (if \<not> has_column ''Penjualan'' d
      then (assign_column ''Penjualan'' (map IntC (fst (draws (randint 20 200) (len d) g))) d,
            snd (draws (randint 20 200) (len d) g))
      else (d, g))"
  by (simp add: fill_penjualan_def case_prod_unfold Let_def)

lemma has_column_fill_wilayah:
  "has_column c (fst (fill_wilayah d g)) \<longleftrightarrow> c = ''Wilayah'' \<or> has_column c d"
  by (auto simp: fill_wilayah_eq has_column_assign)

lemma has_column_fill_promosi:
  "has_column c (fst (fill_promosi d g)) \<longleftrightarrow> c = ''Promosi'' \<or> has_column c d"
  by (auto simp: fill_promosi_eq has_column_assign)

lemma has_column_fill_penjualan:
  "has_column c (fst (fill_penjualan d g)) \<longleftrightarrow> c = ''Penjualan'' \<or> has_column c d"
  by (auto simp: fill_penjualan_eq has_column_assign)

lemma has_column_fill_nama_produk:
  "has_column c (fill_nama_produk d) \<longleftrightarrow> c = ''Nama_Produk'' \<or> has_column c d"
  by (auto simp: fill_nama_produk_def has_column_assign)

lemma len_fill_wilayah: "len (fst (fill_wilayah d g)) = len d"
  by (simp add: fill_wilayah_eq len_assign_column length_draws)

lemma len_fill_promosi: "len (fst (fill_promosi d g)) = len d"
  by (simp add: fill_promosi_eq len_assign_column length_draws)

lemma len_fill_penjualan: "len (fst (fill_penjualan d g)) = len d"
  by (simp add: fill_penjualan_eq len_assign_column length_draws)

lemma len_fill_nama_produk: "len (fill_nama_produk d) = len d"
  by (simp add: fill_nama_produk_def len_assign_column)

lemma keep_fill_wilayah:
  "c \<noteq> ''Wilayah'' \<or> has_column c d \<Longrightarrow>
   column_values c (fst (fill_wilayah d g)) = column_values c d"
  by (cases "c = ''Wilayah''") (simp_all add: fill_wilayah_eq column_values_assign_other length_draws)

lemma keep_fill_promosi:
  "c \<noteq> ''Promosi'' \<or> has_column c d \<Longrightarrow>
   column_values c (fst (fill_promosi d g)) = column_values c d"
  by (cases "c = ''Promosi''") (simp_all add: fill_promosi_eq column_values_assign_other length_draws)

lemma keep_fill_penjualan:
  "c \<noteq> ''Penjualan'' \<or> has_column c d \<Longrightarrow>
   column_values c (fst (fill_penjualan d g)) = column_values c d"
  by (cases "c = ''Penjualan''") (simp_all add: fill_penjualan_eq column_values_assign_other length_draws)

lemma keep_fill_nama_produk:
  "c \<noteq> ''Nama_Produk'' \<or> has_column c d \<Longrightarrow>
   column_values c (fill_nama_produk d) = column_values c d"
  by (cases "c = ''Nama_Produk''") (simp_all add: fill_nama_produk_def column_values_assign_other)

lemma index_fill_wilayah: "index (fst (fill_wilayah d g)) = index d"
  by (simp add: fill_wilayah_eq index_assign_column length_draws)

lemma index_fill_promosi: "index (fst (fill_promosi d g)) = index d"
  by (simp add: fill_promosi_eq index_assign_column length_draws)

lemma index_fill_penjualan: "index (fst (fill_penjualan d g)) = index d"
  by (simp add: fill_penjualan_eq index_assign_column length_draws)

lemma index_fill_nama_produk: "index (fill_nama_produk d) = index d"
  by (simp add: fill_nama_produk_def index_assign_column)

lemma backfill_eq:
  "backfill d g =
     (let w = fill_wilayah d g;
          p = fill_promosi (fst w) (snd w);
          s = fill_penjualan (fst p) (snd p)
      in (fill_nama_produk (fst s), snd s))"
  by (simp add: backfill_def case_prod_unfold Let_def)

lemma keep_backfill:
  assumes "c \<notin> {''Wilayah'', ''Promosi'', ''Penjualan'', ''Nama_Produk''} \<or> has_column c d"
  shows "column_values c (fst (backfill d g)) = column_values c d"
proof -
  define w where "w = fill_wilayah d g"
  define p where "p = fill_promosi (fst w) (snd w)"
  define s where "s = fill_penjualan (fst p) (snd p)"
  have 1: "column_values c (fst w) = column_values c d"
    unfolding w_def using assms by (intro keep_fill_wilayah) auto
  have hw: "c \<noteq> ''Promosi'' \<or> has_column c (fst w)"
    unfolding w_def using assms by (auto simp: has_column_fill_wilayah)
  have 2: "column_values c (fst p) = column_values c (fst w)"
    unfolding p_def using hw by (rule keep_fill_promosi)
  have hp: "c \<noteq> ''Penjualan'' \<or> has_column c (fst p)"
    unfolding p_def w_def using assms
    by (auto simp: has_column_fill_wilayah has_column_fill_promosi)
  have 3: "column_values c (fst s) = column_values c (fst p)"
    unfolding s_def using hp by (rule keep_fill_penjualan)
  have hs: "c \<noteq> ''Nama_Produk'' \<or> has_column c (fst s)"
    unfolding s_def p_def w_def using assms
    by (auto simp: has_column_fill_wilayah has_column_fill_promosi has_column_fill_penjualan)
  have 4: "column_values c (fill_nama_produk (fst s)) = column_values c (fst s)"
    using hs by (rule keep_fill_nama_produk)
  have "fst (backfill d g) = fill_nama_produk (fst s)"
    by (simp add: backfill_eq Let_def s_def p_def w_def)
  with 1 2 3 4 show ?thesis by simp
qed

lemma index_backfill: "index (fst (backfill d g)) = index d"
  by (simp add: backfill_eq Let_def index_fill_wilayah index_fill_promosi index_fill_penjualan
      index_fill_nama_produk)

lemma len_backfill: "len (fst (backfill d g)) = len d"
  by (simp add: backfill_eq Let_def len_fill_wilayah len_fill_promosi len_fill_penjualan
      len_fill_nama_produk)

lemma has_column_backfill:
  "has_column c (fst (backfill d g)) \<longleftrightarrow>
     c \<in> {''Wilayah'', ''Promosi'', ''Penjualan'', ''Nama_Produk''} \<or> has_column c d"
  by (auto simp: backfill_eq Let_def has_column_fill_wilayah has_column_fill_promosi
      has_column_fill_penjualan has_column_fill_nama_produk)

lemma has_column_dropna: "has_column c' (dropna c df) = has_column c' df"
  by (simp add: has_column_def dropna_def)

lemma has_column_sort_values: "has_column c' (sort_values ties c df) = has_column c' df"
  by (simp add: has_column_def sort_values_def Let_def)

lemma has_column_prepare_dates:
  "has_column c (prepare_dates ties parse data) \<longleftrightarrow> c = ''Tanggal'' \<or> has_column c data"
  by (auto simp: prepare_dates_def parse_dates_def Let_def has_column_sort_values
      has_column_dropna has_column_assign)

lemma backfill_all_present:
  assumes "has_column ''Wilayah'' d" "has_column ''Promosi'' d"
    "has_column ''Penjualan'' d" "has_column ''Nama_Produk'' d"
  shows "backfill d g = (d, g)"
  using assms
  by (simp add: backfill_eq Let_def fill_wilayah_eq fill_promosi_eq fill_penjualan_eq
      fill_nama_produk_def)

lemma draws_randint_range:
  assumes "n \<in> set (fst (draws (randint 20 200) k g))"
  shows "20 \<le> n \<and> n \<le> 200"
proof (rule draws_all [where f = "randint 20 200" and P = "\<lambda>n. 20 \<le> n \<and> n \<le> 200", OF _ assms])
  fix g' :: rng
  show "20 \<le> fst (randint 20 200 g') \<and> fst (randint 20 200 g') \<le> 200"
    by (rule randint_range) simp
qed


subsection \<open>Where the rows come from\<close>

lemma rows_assign_origin:
  assumes "(i, r) \<in> set (rows (assign_column c vs df))"
  shows "\<exists>r0. (i, r0) \<in> set (rows df) \<and> (\<forall>c'. c' \<noteq> c \<longrightarrow> r c' = r0 c')"
proof -
  from assms obtain x v where xv: "(x, v) \<in> set (zip (rows df) vs)"
    and eq: "(i, r) = (\<lambda>((i, r), v). (i, r(c := v))) (x, v)"
    by (auto simp: assign_column_def)
  from xv have "x \<in> set (rows df)" by (rule set_zip_leftD)
  with eq show ?thesis by (cases x) auto
qed

lemma rows_parse_dates_origin:
  assumes "(i, r) \<in> set (rows (parse_dates parse data))"
  shows "\<exists>r0. (i, r0) \<in> set (rows data) \<and> (\<forall>c. c \<noteq> ''Tanggal'' \<longrightarrow> r c = r0 c)"
proof (cases "has_column ''Tanggal'' data")
  case True
  with assms show ?thesis
    by (auto simp: parse_dates_def Let_def dest: rows_assign_origin)
next
  case False
  let ?d1 = "assign_column ''Tanggal'' (map TimeC (date_range epoch_2023 (len data))) data"
  from assms False
  have "(i, r) \<in> set (rows (assign_column ''Tanggal''
      (to_datetime parse (column_values ''Tanggal'' ?d1)) ?d1))"
    by (simp add: parse_dates_def Let_def)
  then obtain r1 where r1: "(i, r1) \<in> set (rows ?d1)" "\<forall>c. c \<noteq> ''Tanggal'' \<longrightarrow> r c = r1 c"
    using rows_assign_origin by blast
  from r1(1) obtain r0 where "(i, r0) \<in> set (rows data)" "\<forall>c. c \<noteq> ''Tanggal'' \<longrightarrow> r1 c = r0 c"
    using rows_assign_origin by blast
  with r1(2) show ?thesis by auto
qed

lemma rows_prepare_dates_subset:
  "set (rows (prepare_dates ties parse data)) \<subseteq> set (rows (parse_dates parse data))"
  by (auto simp: prepare_dates_def set_rows_sort_values dropna_def)

lemma index_parse_dates: "index (parse_dates parse data) = index data"
  by (simp add: parse_dates_def Let_def index_assign_column len_assign_column
      length_to_datetime length_column_values length_date_range)

lemma distinct_index_prepare_dates:
  assumes "distinct (index data)"
  shows "distinct (index (prepare_dates ties parse data))"
proof -
  have "distinct (index (parse_dates parse data))"
    using assms by (simp add: index_parse_dates)
  then have "distinct (index (dropna ''Tanggal'' (parse_dates parse data)))"
    by (simp add: index_def dropna_def distinct_map_filter)
  moreover have "mset (index (prepare_dates ties parse data))
      = mset (index (dropna ''Tanggal'' (parse_dates parse data)))"
    by (simp add: index_def prepare_dates_def mset_rows_sort_values)
  ultimately show ?thesis
    using mset_eq_imp_distinct_iff by blast
qed

lemma rows_read_table:
  "(i, r) \<in> set (rows (read_table cols rs)) \<longleftrightarrow> i < length rs \<and> r = rs ! i"
  by (auto simp: read_table_def in_set_enumerate_eq)

subsection \<open>Product labels\<close>

lemma str_of_nat_digit: "n < 10 \<Longrightarrow> str_of_nat n = [digit_char n]"
  by (subst str_of_nat.simps) simp

lemma motor_label_mod: "motor_label i = motor_label (i mod 5)"
  by (simp add: motor_label_def)

lemma motor_labels_5:
  "map motor_label [0, 1, 2, 3, 4] =
     [StrC ''Motor-1'', StrC ''Motor-2'', StrC ''Motor-3'', StrC ''Motor-4'', StrC ''Motor-5'']"
  by (simp add: motor_label_def str_of_nat_digit digit_char_def)

lemma upt_5: "[0..<5] = [0, 1, 2, 3, 4]"
  by (simp add: upt_rec)

lemma inj_on_motor_label: "inj_on motor_label {0..<5}"
proof -
  have "distinct (map motor_label [0..<5])"
    unfolding upt_5 motor_labels_5 by simp
  then have "inj_on motor_label (set [0..<5])"
    by (simp add: distinct_map)
  then show ?thesis by simp
qed

lemma card_motor_labels: "card (set (map motor_label [0..<n])) = min n 5"
proof -
  have "motor_label ` {0..<n} = motor_label ` {0..<min n 5}"
  proof (intro equalityI subsetI)
    fix x assume "x \<in> motor_label ` {0..<n}"
    then obtain i where i: "i < n" "x = motor_label i" by auto
    have "i mod 5 < min n 5"
    proof (cases "n < 5")
      case True
      with i(1) show ?thesis by simp
    next
      case False
      then show ?thesis by simp
    qed
    moreover have "x = motor_label (i mod 5)"
      using i(2) motor_label_mod by simp
    ultimately show "x \<in> motor_label ` {0..<min n 5}" by auto
  next
    fix x assume "x \<in> motor_label ` {0..<min n 5}"
    then show "x \<in> motor_label ` {0..<n}" by auto
  qed
  moreover have "inj_on motor_label {0..<min n 5}"
    by (rule inj_on_subset [OF inj_on_motor_label]) auto
  ultimately show ?thesis
    by (simp add: card_image)
qed

lemma nama_produk_synthesized:
  assumes "\<not> has_column ''Nama_Produk'' data"
  shows "column_values ''Nama_Produk'' (canonical ties parse data g)
           = map motor_label [0..<len (canonical ties parse data g)]"
proof -
  define d where "d = prepare_dates ties parse data"
  define w where "w = fill_wilayah d g"
  define p where "p = fill_promosi (fst w) (snd w)"
  define s where "s = fill_penjualan (fst p) (snd p)"
  have canon: "canonical ties parse data g = fill_nama_produk (fst s)"
    by (simp add: canonical_def normalize_def backfill_eq Let_def s_def p_def w_def d_def)
  have absent: "\<not> has_column ''Nama_Produk'' (fst s)"
    using assms
    by (simp add: s_def p_def w_def d_def has_column_fill_penjualan has_column_fill_promosi
        has_column_fill_wilayah has_column_prepare_dates)
  then have "fill_nama_produk (fst s)
      = assign_column ''Nama_Produk'' (map motor_label [0..<len (fst s)]) (fst s)"
    by (simp add: fill_nama_produk_def)
  then have "column_values ''Nama_Produk'' (fill_nama_produk (fst s))
      = map motor_label [0..<len (fst s)]"
    by (simp add: column_values_assign_same)
  then show ?thesis
    by (simp add: canon len_fill_nama_produk)
qed

lemma len_canonical: "len (canonical ties parse data g) = len (dropna ''Tanggal'' (parse_dates parse data))"
  by (simp add: canonical_def normalize_def len_backfill prepare_dates_def len_sort_values)

section \<open>Properties of the pages\<close>










section \<open>The claims\<close>

text \<open>
  Claim C8. When the source has no \<open>Penjualan\<close> column, the column of the canonical table is
  synthesized: every cell is an integer, and every one lies between 20 and 200 inclusive.
\<close>

theorem synthesized_units_in_range:
  assumes "\<not> has_column ''Penjualan'' data"
  shows "\<exists>ns. column_values ''Penjualan'' (canonical ties parse data g) = map IntC ns
            \<and> length ns = len (canonical ties parse data g)
            \<and> (\<forall>n \<in> set ns. 20 \<le> n \<and> n \<le> 200)"
proof -
  define d where "d = prepare_dates ties parse data"
  define w where "w = fill_wilayah d g"
  define p where "p = fill_promosi (fst w) (snd w)"
  define s where "s = fill_penjualan (fst p) (snd p)"
  define ns where "ns = fst (draws (randint 20 200) (len (fst p)) (snd p))"
  have canon: "canonical ties parse data g = fill_nama_produk (fst s)"
    by (simp add: canonical_def normalize_def backfill_eq Let_def s_def p_def w_def d_def)
  have absent: "\<not> has_column ''Penjualan'' (fst p)"
    using assms
    by (simp add: p_def w_def d_def has_column_fill_promosi has_column_fill_wilayah
        has_column_prepare_dates)
  have len_ns: "length ns = len (fst p)"
    by (simp add: ns_def length_draws)
  have "fst s = assign_column ''Penjualan'' (map IntC ns) (fst p)"
    using absent by (simp add: s_def fill_penjualan_eq ns_def)
  then have col_s: "column_values ''Penjualan'' (fst s) = map IntC ns"
    using len_ns by (simp add: column_values_assign_same)
  have "column_values ''Penjualan'' (fill_nama_produk (fst s)) = column_values ''Penjualan'' (fst s)"
    by (rule keep_fill_nama_produk) simp
  with col_s canon have col: "column_values ''Penjualan'' (canonical ties parse data g) = map IntC ns"
    by simp
  have "len (canonical ties parse data g) = len (fst p)"
    by (simp add: canon len_fill_nama_produk s_def len_fill_penjualan)
  with len_ns have len_eq: "length ns = len (canonical ties parse data g)" by simp
  have "\<forall>n \<in> set ns. 20 \<le> n \<and> n \<le> 200"
    unfolding ns_def using draws_randint_range by blast
  with col len_eq show ?thesis by blast
qed

theorem synthesized_units_in_range_witness:
  "\<not> has_column ''Penjualan'' (read_table [''Tanggal''] [(\<lambda>c. Null)(''Tanggal'' := TimeC 0)])
   \<and> (\<exists>ns. column_values ''Penjualan''
              (canonical in_order sample_parse
                 (read_table [''Tanggal''] [(\<lambda>c. Null)(''Tanggal'' := TimeC 0)]) counting)
              = map IntC ns
          \<and> length ns = len (canonical in_order sample_parse
                 (read_table [''Tanggal''] [(\<lambda>c. Null)(''Tanggal'' := TimeC 0)]) counting)
          \<and> (\<forall>n \<in> set ns. 20 \<le> n \<and> n \<le> 200))"
proof -
  have absent: "\<not> has_column ''Penjualan''
      (read_table [''Tanggal''] [(\<lambda>c. Null)(''Tanggal'' := TimeC 0)])"
    by (simp add: has_column_def read_table_def)
  from absent synthesized_units_in_range [OF absent] show ?thesis
    by (rule conjI)
qed

text \<open>
  Claim C10. When the source has all five columns, normalization draws nothing from the
  random generator (the generator comes back as it went in) and its result does not depend
  on the generator: two runs on the same source give the same canonical table.
\<close>

theorem normalize_deterministic:
  assumes "has_column ''Tanggal'' data" "has_column ''Wilayah'' data" "has_column ''Promosi'' data"
    "has_column ''Penjualan'' data" "has_column ''Nama_Produk'' data"
  shows "normalize ties parse data g1 = (prepare_dates ties parse data, g1)
       \<and> fst (normalize ties parse data g1) = fst (normalize ties parse data g2)"
proof -
  have "normalize ties parse data g = (prepare_dates ties parse data, g)" for g
    unfolding normalize_def using assms
    by (intro backfill_all_present) (simp_all add: has_column_prepare_dates)
  then show ?thesis by simp
qed

theorem normalize_deterministic_witness:
  "has_column ''Tanggal'' (read_table five_columns [sample_row (TimeC 0) (StrC ''Medan'') (IntC 1) (IntC 40) (StrC ''Beat'')])
   \<and> normalize in_order sample_parse
        (read_table five_columns [sample_row (TimeC 0) (StrC ''Medan'') (IntC 1) (IntC 40) (StrC ''Beat'')])
        counting
      = (prepare_dates in_order sample_parse
           (read_table five_columns [sample_row (TimeC 0) (StrC ''Medan'') (IntC 1) (IntC 40) (StrC ''Beat'')]),
         counting)
   \<and> fst (normalize in_order sample_parse
        (read_table five_columns [sample_row (TimeC 0) (StrC ''Medan'') (IntC 1) (IntC 40) (StrC ''Beat'')])
        counting)
      = fst (normalize in_order sample_parse
        (read_table five_columns [sample_row (TimeC 0) (StrC ''Medan'') (IntC 1) (IntC 40) (StrC ''Beat'')])
        (\<lambda>k. 7))"
proof -
  let ?t = "read_table five_columns [sample_row (TimeC 0) (StrC ''Medan'') (IntC 1) (IntC 40) (StrC ''Beat'')]"
  have h: "has_column ''Tanggal'' ?t" "has_column ''Wilayah'' ?t" "has_column ''Promosi'' ?t"
    "has_column ''Penjualan'' ?t" "has_column ''Nama_Produk'' ?t"
    by (simp_all add: has_column_def read_table_def five_columns_def)
  from h(1) normalize_deterministic [OF h, of in_order sample_parse counting "\<lambda>k. 7"]
  show ?thesis by (rule conjI)
qed

text \<open>
  Claim C2. Whatever the source, the date column of the canonical table holds timestamps
  only (no missing value survives \<open>dropna\<close>) and they are in non-decreasing order.
\<close>

theorem canonical_dates_sorted:
  "\<exists>ds. column_values ''Tanggal'' (canonical ties parse data g) = map TimeC ds \<and> sorted ds"
proof -
  let ?col = "column_values ''Tanggal'' (prepare_dates ties parse data)"
  have keep: "column_values ''Tanggal'' (canonical ties parse data g) = ?col"
    unfolding canonical_def normalize_def by (rule keep_backfill) simp
  have "map TimeC (map stamp ?col) = ?col"
  proof -
    have "TimeC (stamp x) = x" if "x \<in> set ?col" for x
      using tanggal_prepared_cells [OF that] by auto
    then show ?thesis by (simp add: map_idI)
  qed
  with keep tanggal_prepared_sorted [of ties parse data] show ?thesis
    by metis
qed



text \<open>
  Claim C4, as amended. When the source has no \<open>Nama_Produk\<close> column, row \<open>i\<close> of the
  canonical table (counted from 0, after dropping and sorting) gets the label
  \<open>Motor-\<close> followed by \<open>i mod 5 + 1\<close>, so the number of distinct labels is the smaller of
  5 and the number of rows. A table of fewer than five rows has fewer than five labels, as
  the one-row table below shows.
\<close>

theorem synthesized_labels_cycle:
  assumes "\<not> has_column ''Nama_Produk'' data"
  shows "column_values ''Nama_Produk'' (canonical ties parse data g)
           = map motor_label [0..<len (canonical ties parse data g)]
       \<and> card (set (column_values ''Nama_Produk'' (canonical ties parse data g)))
           = min (len (canonical ties parse data g)) 5"
  using nama_produk_synthesized [OF assms] card_motor_labels by simp

theorem synthesized_labels_cycle_witness:
  "\<not> has_column ''Nama_Produk'' (read_table [''Tanggal''] (replicate 7 ((\<lambda>c. Null)(''Tanggal'' := TimeC 0))))
   \<and> column_values ''Nama_Produk''
        (canonical in_order sample_parse
           (read_table [''Tanggal''] (replicate 7 ((\<lambda>c. Null)(''Tanggal'' := TimeC 0)))) counting)
       = [StrC ''Motor-1'', StrC ''Motor-2'', StrC ''Motor-3'', StrC ''Motor-4'', StrC ''Motor-5'',
          StrC ''Motor-1'', StrC ''Motor-2'']
   \<and> card (set (column_values ''Nama_Produk''
        (canonical in_order sample_parse
           (read_table [''Tanggal''] (replicate 7 ((\<lambda>c. Null)(''Tanggal'' := TimeC 0)))) counting))) = 5"
proof -
  let ?t = "read_table [''Tanggal''] (replicate 7 ((\<lambda>c. Null)(''Tanggal'' := TimeC 0)))"
  have absent: "\<not> has_column ''Nama_Produk'' ?t"
    by (simp add: has_column_read_table)
  have seven: "len (canonical in_order sample_parse ?t counting) = 7"
    by code_simp
  have labels: "map motor_label [0..<7] =
      [StrC ''Motor-1'', StrC ''Motor-2'', StrC ''Motor-3'', StrC ''Motor-4'', StrC ''Motor-5'',
       StrC ''Motor-1'', StrC ''Motor-2'']"
    by code_simp
  have five: "min (7::nat) 5 = 5"
    by simp
  from synthesized_labels_cycle [OF absent, of in_order sample_parse counting, unfolded seven labels five]
    absent
  show ?thesis by blast
qed

theorem one_row_one_label_counterexample:
  "card (set (column_values ''Nama_Produk''
      (canonical in_order sample_parse dates_only counting))) = 1"
proof -
  have absent: "\<not> has_column ''Nama_Produk'' dates_only"
    by (simp add: dates_only_def has_column_read_table)
  have "len (canonical in_order sample_parse dates_only counting) = 1"
    by code_simp
  with nama_produk_synthesized [OF absent, of in_order sample_parse counting] card_motor_labels [of 1]
  show ?thesis by simp
qed




text \<open>
  Claim C6. A region, promotion, units or product column that the source has is never
  backfilled: in the canonical table each of its cells is the cell the source has in the row
  of the same index label, empty cells included. The labels of the canonical table are
  distinct labels of the source (rows may have been dropped or moved by the date steps).
\<close>

theorem present_columns_unchanged:
  assumes "c \<in> {''Wilayah'', ''Promosi'', ''Penjualan'', ''Nama_Produk''}"
    and "has_column c (read_table cols rs)"
  shows "column_values c (canonical ties parse (read_table cols rs) g)
           = map (\<lambda>i. (rs ! i) c) (index (canonical ties parse (read_table cols rs) g))
       \<and> distinct (index (canonical ties parse (read_table cols rs) g))
       \<and> set (index (canonical ties parse (read_table cols rs) g)) \<subseteq> {0..<length rs}"
proof -
  let ?t = "read_table cols rs"
  let ?p = "prepare_dates ties parse ?t"
  have origin: "i < length rs \<and> r c = (rs ! i) c" if "(i, r) \<in> set (rows ?p)" for i r
  proof -
    from that have "(i, r) \<in> set (rows (parse_dates parse ?t))"
      using rows_prepare_dates_subset by blast
    then obtain r0 where "(i, r0) \<in> set (rows ?t)" "\<forall>c. c \<noteq> ''Tanggal'' \<longrightarrow> r c = r0 c"
      using rows_parse_dates_origin by blast
    moreover have "c \<noteq> ''Tanggal''" using assms(1) by auto
    ultimately show ?thesis by (auto simp: rows_read_table)
  qed
  have col: "column_values c ?p = map (\<lambda>i. (rs ! i) c) (index ?p)"
    using origin by (auto simp: column_values_def index_def)
  have present: "has_column c ?p"
    using assms(2) by (simp add: has_column_prepare_dates)
  have keep: "column_values c (canonical ties parse ?t g) = column_values c ?p"
    unfolding canonical_def normalize_def using present by (intro keep_backfill) simp
  have idx: "index (canonical ties parse ?t g) = index ?p"
    by (simp add: canonical_def normalize_def index_backfill)
  have dist: "distinct (index ?p)"
    by (rule distinct_index_prepare_dates) (simp add: index_read_table)
  have bound: "set (index ?p) \<subseteq> {0..<length rs}"
    using origin by (auto simp: index_def)
  from col keep idx dist bound show ?thesis by simp
qed

theorem present_columns_unchanged_witness:
  "has_column ''Wilayah'' (read_table five_columns partial_region)
   \<and> index (canonical in_order sample_parse (read_table five_columns partial_region) counting)
       = [1, 0]
   \<and> column_values ''Wilayah''
        (canonical in_order sample_parse (read_table five_columns partial_region) counting)
       = [StrC ''Medan'', Null]"
proof -
  have present: "has_column ''Wilayah'' (read_table five_columns partial_region)"
    by (simp add: has_column_read_table five_columns_def)
  have idx: "index (canonical in_order sample_parse (read_table five_columns partial_region) counting)
      = [1, 0]"
    by code_simp
  have cells: "map (\<lambda>i. (partial_region ! i) ''Wilayah'') [1, 0] = [StrC ''Medan'', Null]"
    by (simp add: partial_region_def sample_row_def)
  from present_columns_unchanged [OF _ present, of in_order sample_parse counting] present idx cells
  show ?thesis by simp
qed








end
